theory Spec2Isabelle
  imports Complex_Main
begin

section \<open>Python values used by the engine\<close>

text \<open>
  A Python \<open>str\<close> is a sequence of Unicode code points.  A code point is modelled as a
  natural number, so that a glyph such as U+2588 is one element, as it is in Python.
\<close>

type_synonym codepoint = nat

type_synonym pystr = "codepoint list"

definition ascii :: "string \<Rightarrow> pystr" where
  "ascii s = map of_char s"

text \<open>The decimal digits of a natural number, as code points.\<close>

fun digits :: "nat \<Rightarrow> pystr" where
  "digits n = (if n < 10 then [48 + n] else digits (n div 10) @ [48 + n mod 10])"

declare digits.simps [simp del]

text \<open>\<open>str(i)\<close> for an integer, as an f-string formats it: a minus sign when negative.\<close>

definition str_int :: "int \<Rightarrow> pystr" where
  "str_int i = (if i < 0 then 45 # digits (nat (- i)) else digits (nat i))"

text \<open>The number that a string of decimal digits denotes.\<close>

definition decimal_value :: "pystr \<Rightarrow> nat" where
  "decimal_value s = foldl (\<lambda>a d. 10 * a + (d - 48)) 0 s"

text \<open>
  The exceptions the modelled code can raise.  \<open>Exception\<close> stands for anything raised
  by game code inside \<open>update\<close>.
\<close>

datatype exn = IndexError | ValueError | ZeroDivisionError | TypeError | Exception pystr

text \<open>
  A method call either returns or raises; in both cases the mutations made to the
  object so far persist, so both outcomes carry the state.
\<close>

datatype 's result = Ok 's | Raise exn 's

fun state_of :: "'s result \<Rightarrow> 's" where
  "state_of (Ok s) = s"
| "state_of (Raise x s) = s"


section \<open>The character grid: a numpy array of dtype \<open><U1\<close>\<close>

text \<open>
  \<open>np.full((height, width), " ", dtype=str)\<close> makes an array whose item type holds
  exactly one code point.  An item is stored as that code point; the empty string is
  stored as code point 0, and an item holding code point 0 reads back as the empty
  string.  Assigning a longer string keeps its first code point only.  The array is a
  list of rows.
\<close>

type_synonym ndarray = "codepoint list list"

definition to_U1 :: "pystr \<Rightarrow> codepoint" where
  "to_U1 s = (case s of [] \<Rightarrow> 0 | c # _ \<Rightarrow> c)"

definition from_U1 :: "codepoint \<Rightarrow> pystr" where
  "from_U1 c = (if c = 0 then [] else [c])"

definition np_full :: "nat \<Rightarrow> nat \<Rightarrow> pystr \<Rightarrow> ndarray" where
  "np_full h w s = replicate h (replicate w (to_U1 s))"

definition has_shape :: "ndarray \<Rightarrow> nat \<Rightarrow> nat \<Rightarrow> bool" where
  "has_shape a h w = (length a = h \<and> list_all (\<lambda>r. length r = w) a)"

text \<open>numpy indexing along one axis of length \<open>n\<close>: negative indices count from the end.\<close>

definition np_index :: "nat \<Rightarrow> int \<Rightarrow> nat option" where
  "np_index n i =
     (if 0 \<le> i \<and> i < int n then Some (nat i)
      else if - int n \<le> i \<and> i < 0 then Some (nat (int n + i))
      else None)"

text \<open>\<open>a[y, x] = s\<close>\<close>

definition setitem :: "ndarray \<Rightarrow> int \<Rightarrow> int \<Rightarrow> pystr \<Rightarrow> exn + ndarray" where
  "setitem a y x s =
     (case np_index (length a) y of
        None \<Rightarrow> Inl IndexError
      | Some j \<Rightarrow>
          (case np_index (length (a ! j)) x of
             None \<Rightarrow> Inl IndexError
           | Some i \<Rightarrow> Inr (a[j := (a ! j)[i := to_U1 s]])))"

section \<open>The engine object and the process it runs in\<close>

text \<open>
  Of the terminal attributes only the two local-mode flags that tell cooked mode from
  raw mode are kept.
\<close>

record termios =
  echo :: bool
  icanon :: bool


datatype thread = Alive | Joined

text \<open>
  What the methods act on outside the object: the platform, the attributes of the
  terminal behind \<open>sys.stdin\<close>, the strings written to \<open>sys.stdout\<close> (oldest first),
  the number of \<open>os.system\<close> clear commands run, the number of handlers registered with
  \<open>atexit\<close>, and the durations passed to \<open>time.sleep\<close>.
\<close>

record process =
  os_nt :: bool
  tty :: termios
  stdout :: "pystr list"
  cleared :: nat
  atexit :: nat
  slept :: "rat list"

text \<open>
  The attributes set by \<open>TerminalEngine.__init__\<close>, and the process.  A game is a
  subclass: its own attributes are the extension of the record.
\<close>

record engine =
  width :: int
  height :: int
  buffer :: ndarray
  prevBuffer :: ndarray
  running :: bool
  tickRate :: int
  maxFps :: int
  tickDuration :: rat
  frameDuration :: rat
  keysPressed :: "pystr set"
  keysReleased :: "pystr set"
  inputThread :: "thread option"
  oldSettings :: "termios option"
  proc :: process

text \<open>
  The arrays are made with shape \<open>(height, width)\<close> by \<open>__init__\<close> and no method of the
  engine rebinds them or the two dimensions.
\<close>

definition grids_ok :: "'a engine_scheme \<Rightarrow> bool" where
  "grids_ok e = (0 \<le> width e \<and> 0 \<le> height e
           \<and> has_shape (buffer e) (nat (height e)) (nat (width e))
           \<and> has_shape (prevBuffer e) (nat (height e)) (nat (width e)))"

subsection \<open>Drawing\<close>

text \<open>
  \<^verbatim>\<open>
  def drawPixel(self, x, y, char):
      if 0 <= x < self.width and 0 <= y < self.height:
          self.buffer[y, x] = char
  \<close>
\<close>

definition drawPixel :: "'a engine_scheme \<Rightarrow> int \<Rightarrow> int \<Rightarrow> pystr \<Rightarrow> 'a engine_scheme result" where
  "drawPixel e x y char =
     (if 0 \<le> x \<and> x < width e \<and> 0 \<le> y \<and> y < height e then
        (case setitem (buffer e) y x char of
           Inl err \<Rightarrow> Raise err e
         | Inr b \<Rightarrow> Ok (e\<lparr>buffer := b\<rparr>))
      else Ok e)"

text \<open>
  \<^verbatim>\<open>
  def drawText(self, x, y, text):
      for i, char in enumerate(text):
          self.drawPixel(x + i, y, char)
  \<close>
\<close>

fun drawText_loop ::
  "'a engine_scheme \<Rightarrow> int \<Rightarrow> int \<Rightarrow> (nat \<times> codepoint) list \<Rightarrow> 'a engine_scheme result" where
  "drawText_loop e x y [] = Ok e"
| "drawText_loop e x y ((i, c) # rest) =
     (case drawPixel e (x + int i) y [c] of
        Raise err e' \<Rightarrow> Raise err e'
      | Ok e' \<Rightarrow> drawText_loop e' x y rest)"

definition drawText :: "'a engine_scheme \<Rightarrow> int \<Rightarrow> int \<Rightarrow> pystr \<Rightarrow> 'a engine_scheme result" where
  "drawText e x y text = drawText_loop e x y (enumerate 0 text)"



subsection \<open>Differential rendering\<close>

text \<open>
  \<open>a != b\<close> on two arrays, element by element.  For arrays of different shapes numpy
  broadcasts or raises; the engine's two arrays always have the same shape, and the
  model raises \<open>ValueError\<close> otherwise.
\<close>

definition not_equal :: "ndarray \<Rightarrow> ndarray \<Rightarrow> exn + bool list list" where
  "not_equal a b =
     (if map length a = map length b
      then Inr (map2 (\<lambda>r s. map2 (\<lambda>c d. c \<noteq> d) r s) a b)
      else Inl ValueError)"

text \<open>
  \<open>zip(*np.where(diff))\<close>: the index pairs \<open>(y, x)\<close> of the true items, in the order
  numpy lists them (row by row, each row left to right).
\<close>

definition np_where :: "bool list list \<Rightarrow> (nat \<times> nat) list" where
  "np_where d =
     concat (map (\<lambda>(y, r). map (\<lambda>x. (y, x)) (filter (\<lambda>x. r ! x) [0..<length r]))
                 (enumerate 0 d))"

text \<open>The string \<open>f"\033[{y+1};{x+1}H{self.buffer[y, x]}"\<close>.\<close>

definition cell_write :: "ndarray \<Rightarrow> nat \<times> nat \<Rightarrow> pystr" where
  "cell_write a p =
     (case p of (y, x) \<Rightarrow>
        27 # ascii ''['' @ str_int (int y + 1) @ ascii '';'' @ str_int (int x + 1) @ ascii ''H''
          @ from_U1 (a ! y ! x))"

definition stdout_write :: "'a engine_scheme \<Rightarrow> pystr list \<Rightarrow> 'a engine_scheme" where
  "stdout_write e ss = e\<lparr>proc := (proc e)\<lparr>stdout := stdout (proc e) @ ss\<rparr>\<rparr>"

text \<open>
  \<^verbatim>\<open>
  def render(self):
      diff = self.buffer != self.prevBuffer
      yIndices, xIndices = np.where(diff)
      for y, x in zip(yIndices, xIndices):
          sys.stdout.write(f"\033[{y+1};{x+1}H{self.buffer[y, x]}")
      sys.stdout.flush()
      np.copyto(self.prevBuffer, self.buffer)
  \<close>
\<close>

definition render :: "'a engine_scheme \<Rightarrow> 'a engine_scheme result" where
  "render e =
     (case not_equal (buffer e) (prevBuffer e) of
        Inl err \<Rightarrow> Raise err e
      | Inr diff \<Rightarrow>
          Ok ((stdout_write e (map (cell_write (buffer e)) (np_where diff)))\<lparr>prevBuffer := buffer e\<rparr>))"

subsection \<open>Key state\<close>

text \<open>
  The input thread, which adds keys to \<open>keysPressed\<close> while the main thread runs, is
  not part of the model: the operations below are the main thread's.
\<close>

definition isKeyPressed :: "'a engine_scheme \<Rightarrow> pystr \<Rightarrow> bool" where
  "isKeyPressed e key = (key \<in> keysPressed e)"

definition isKeyReleased :: "'a engine_scheme \<Rightarrow> pystr \<Rightarrow> bool" where
  "isKeyReleased e key = (key \<in> keysReleased e)"

text \<open>
  \<^verbatim>\<open>
  def clearKeyStates(self):
      self.keysReleased = self.keysPressed
      self.keysPressed = set()
  \<close>
\<close>

definition clearKeyStates :: "'a engine_scheme \<Rightarrow> 'a engine_scheme" where
  "clearKeyStates e = e\<lparr>keysReleased := keysPressed e, keysPressed := {}\<rparr>"

subsection \<open>Terminal and input thread\<close>








section \<open>Python floats\<close>

text \<open>
  A finite binary64 value is the rational it denotes.  An arithmetic operation computes
  the exact rational result and rounds it to the nearest value with a 53-bit
  significand, ties to even.  The exponent range is not modelled (no overflow, no
  subnormal results, no infinities or NaN).
\<close>

definition round_even :: "rat \<Rightarrow> int" where
  "round_even x =
     (let f = \<lfloor>x\<rfloor>; d = x - of_int f in
      if d < 1 / 2 then f else if 1 / 2 < d then f + 1 else if even f then f else f + 1)"

text \<open>
  Rounding a positive rational: scale by powers of two into \<open>[2^52, 2^53)\<close>, round to an
  integer, scale back.  The fuel bounds the number of scalings.
\<close>

fun fl_pos :: "nat \<Rightarrow> rat \<Rightarrow> rat" where
  "fl_pos 0 x = x"
| "fl_pos (Suc n) x =
     (if 9007199254740992 \<le> x then 2 * fl_pos n (x / 2)
      else if x < 4503599627370496 then fl_pos n (2 * x) / 2
      else of_int (round_even x))"

definition fl :: "rat \<Rightarrow> rat" where
  "fl x = (if x = 0 then 0 else if x < 0 then - fl_pos 2200 (- x) else fl_pos 2200 x)"

definition fadd :: "rat \<Rightarrow> rat \<Rightarrow> rat" where
  "fadd a b = fl (a + b)"

definition fsub :: "rat \<Rightarrow> rat \<Rightarrow> rat" where
  "fsub a b = fl (a - b)"

definition fdiv :: "rat \<Rightarrow> rat \<Rightarrow> rat" where
  "fdiv a b = fl (a / b)"

section \<open>Construction\<close>

text \<open>
  \<open>TerminalEngine.__init__(width, height, tickRate, maxFps)\<close> in process \<open>p\<close>, whose
  standard input is a terminal.  \<open>np.full\<close> raises \<open>ValueError\<close> on a negative
  dimension, and the float divisions raise \<open>ZeroDivisionError\<close> on a zero rate.
\<close>

definition init :: "process \<Rightarrow> int \<Rightarrow> int \<Rightarrow> int \<Rightarrow> int \<Rightarrow> exn + engine" where
  "init p w h tr fps =
     (if h < 0 \<or> w < 0 then Inl ValueError
      else if tr = 0 then Inl ZeroDivisionError
      else if fps = 0 then Inl ZeroDivisionError
      else Inr \<lparr>width = w, height = h,
                buffer = np_full (nat h) (nat w) (ascii '' ''),
                prevBuffer = np_full (nat h) (nat w) (ascii '' ''),
                running = False, tickRate = tr, maxFps = fps,
                tickDuration = fdiv 1 (fl (of_int tr)),
                frameDuration = fdiv 1 (fl (of_int fps)),
                keysPressed = {}, keysReleased = {},
                inputThread = None,
                oldSettings = (if \<not> os_nt p then Some (tty p) else None),
                proc = p\<rparr>)"

section \<open>The fixed-timestep loop\<close>

text \<open>
  \<open>update\<close> is the method a game overrides; the loop takes it as a parameter.  The
  engine's own \<open>update\<close> does nothing.
\<close>

definition update :: "'a engine_scheme \<Rightarrow> rat \<Rightarrow> 'a engine_scheme result" where
  "update e dt = Ok e"

text \<open>
  \<^verbatim>\<open>
  updateCount = 0
  while lag >= self.tickDuration and updateCount < 5:
      self.update(self.tickDuration)
      lag -= self.tickDuration
      updateCount += 1
  \<close>
  The result carries the object and the two locals; when \<open>update\<close> raises, the locals
  are as they stood at the call.
\<close>

function drain ::
  "('a engine_scheme \<Rightarrow> rat \<Rightarrow> 'a engine_scheme result) \<Rightarrow> 'a engine_scheme \<Rightarrow> rat \<Rightarrow> nat
     \<Rightarrow> ('a engine_scheme \<times> rat \<times> nat) result" where
  "drain upd e lag updateCount =
     (if tickDuration e \<le> lag \<and> updateCount < 5 then
        (case upd e (tickDuration e) of
           Raise x e' \<Rightarrow> Raise x (e', lag, updateCount)
         | Ok e' \<Rightarrow> drain upd e' (fsub lag (tickDuration e')) (updateCount + 1))
      else Ok (e, lag, updateCount))"
  by pat_completeness auto
termination
  by (relation "measure (\<lambda>(upd, e, lag, updateCount). 5 - updateCount)") auto

declare drain.simps [simp del]







section \<open>The scenario of the specification\<close>

text \<open>
  A POSIX process on a terminal in cooked mode, and the engine that
  \<open>TerminalEngine(10, 4)\<close> constructs in it (tick rate and frame rate 60).
\<close>

definition posix_process :: process where
  "posix_process =
     \<lparr>os_nt = False, tty = \<lparr>echo = True, icanon = True\<rparr>, stdout = [], cleared = 0,
      atexit = 0, slept = []\<rparr>"

definition engine_10x4 :: engine where
  "engine_10x4 =
     \<lparr>width = 10, height = 4,
      buffer = replicate 4 (replicate 10 32),
      prevBuffer = replicate 4 (replicate 10 32),
      running = False, tickRate = 60, maxFps = 60,
      tickDuration = 4803839602528529 / 288230376151711744,
      frameDuration = 4803839602528529 / 288230376151711744,
      keysPressed = {}, keysReleased = {},
      inputThread = None,
      oldSettings = Some \<lparr>echo = True, icanon = True\<rparr>,
      proc = posix_process\<rparr>"

section \<open>Notions used in the statements\<close>

text \<open>The cells of the grid where \<open>buffer\<close> differs from \<open>prevBuffer\<close>, as \<open>(y, x)\<close>.\<close>

definition changed :: "'a engine_scheme \<Rightarrow> (nat \<times> nat) set" where
  "changed e =
     {(y, x). y < nat (height e) \<and> x < nat (width e) \<and> buffer e ! y ! x \<noteq> prevBuffer e ! y ! x}"

text \<open>Row-major order on cells \<open>(y, x)\<close>: earlier row first, then smaller column.\<close>

definition row_major :: "nat \<times> nat \<Rightarrow> nat \<times> nat \<Rightarrow> bool" where
  "row_major p q = (fst p < fst q \<or> (fst p = fst q \<and> snd p < snd q))"

text \<open>
  The cursor-position command of the terminal, \<open>ESC [ row ; col H\<close>: row and column are
  written in decimal and counted from 1, so that \<open>cup 1 1\<close> addresses the top left corner.
\<close>

definition cup :: "nat \<Rightarrow> nat \<Rightarrow> pystr" where
  "cup row col = 27 # ascii ''['' @ digits row @ ascii '';'' @ digits col @ ascii ''H''"

text \<open>
  The specification's words for the drain, to be compared with \<open>drain\<close>: \<open>n\<close> ticks in
  a row, each of them one call \<open>update(tickDuration)\<close> followed by
  \<open>lag -= tickDuration\<close>, starting from \<open>k\<close> ticks already counted.  A call that
  raises ends the sequence.
\<close>

fun ticks ::
  "nat \<Rightarrow> ('a engine_scheme \<Rightarrow> rat \<Rightarrow> 'a engine_scheme result) \<Rightarrow> 'a engine_scheme \<Rightarrow> rat \<Rightarrow> nat
     \<Rightarrow> ('a engine_scheme \<times> rat \<times> nat) result" where
  "ticks 0 upd e lag k = Ok (e, lag, k)"
| "ticks (Suc n) upd e lag k =
     (case upd e (tickDuration e) of
        Raise x e' \<Rightarrow> Raise x (e', lag, k)
      | Ok e' \<Rightarrow> ticks n upd e' (fsub lag (tickDuration e')) (Suc k))"

text \<open>
  Each of the \<open>n\<close> calls of \<open>ticks\<close> is made, and is made while \<open>lag >= tickDuration\<close>:
  only the last call may raise.
\<close>

fun due ::
  "nat \<Rightarrow> ('a engine_scheme \<Rightarrow> rat \<Rightarrow> 'a engine_scheme result) \<Rightarrow> 'a engine_scheme \<Rightarrow> rat \<Rightarrow> bool" where
  "due 0 upd e lag = True"
| "due (Suc n) upd e lag =
     (tickDuration e \<le> lag \<and>
      (case upd e (tickDuration e) of
         Raise x e' \<Rightarrow> n = 0
       | Ok e' \<Rightarrow> due n upd e' (fsub lag (tickDuration e'))))"

text \<open>
  An \<open>update\<close> that returns normally and leaves \<open>tickDuration\<close> alone, as the games of
  the repository do.
\<close>

definition steady :: "('a engine_scheme \<Rightarrow> rat \<Rightarrow> 'a engine_scheme result) \<Rightarrow> bool" where
  "steady upd = (\<forall>e dt. \<exists>e'. upd e dt = Ok e' \<and> tickDuration e' = tickDuration e)"

text \<open>The two locals of the drain loop under a steady \<open>update\<close>, for tick duration \<open>t\<close>.\<close>

function drain_locals :: "rat \<Rightarrow> rat \<Rightarrow> nat \<Rightarrow> rat \<times> nat" where
  "drain_locals t lag updateCount =
     (if t \<le> lag \<and> updateCount < 5 then drain_locals t (fsub lag t) (updateCount + 1)
      else (lag, updateCount))"
  by pat_completeness auto
termination
  by (relation "measure (\<lambda>(t, lag, updateCount). 5 - updateCount)") auto

declare drain_locals.simps [simp del]




section \<open>Properties of the drawing calls\<close>

lemma np_index_in: "0 \<le> i \<Longrightarrow> i < int n \<Longrightarrow> np_index n i = Some (nat i)"
  by (simp add: np_index_def)

lemma has_shape_nth: "has_shape a h w \<Longrightarrow> j < h \<Longrightarrow> length (a ! j) = w"
  by (simp add: has_shape_def list_all_length)

lemma has_shape_update:
  "has_shape a h w \<Longrightarrow> j < h \<Longrightarrow> has_shape (a[j := (a ! j)[i := c]]) h w"
  by (auto simp: has_shape_def list_all_length nth_list_update)

lemma drawPixel_in:
  assumes "grids_ok e" "0 \<le> x" "x < width e" "0 \<le> y" "y < height e"
  shows "drawPixel e x y s =
           Ok (e\<lparr>buffer := (buffer e)[nat y := (buffer e ! nat y)[nat x := to_U1 s]]\<rparr>)"
proof -
  from assms have len: "length (buffer e) = nat (height e)"
    and row: "length (buffer e ! nat y) = nat (width e)"
    by (auto simp: grids_ok_def has_shape_def list_all_length)
  from assms len have iy: "np_index (length (buffer e)) y = Some (nat y)"
    by (simp add: np_index_in)
  from assms row have ix: "np_index (length (buffer e ! nat y)) x = Some (nat x)"
    by (simp add: np_index_in)
  show ?thesis using assms iy ix by (simp add: drawPixel_def setitem_def)
qed

lemma drawPixel_out:
  "\<not> (0 \<le> x \<and> x < width e \<and> 0 \<le> y \<and> y < height e) \<Longrightarrow> drawPixel e x y s = Ok e"
  by (auto simp: drawPixel_def)

lemma grids_ok_buffer_update:
  "grids_ok e \<Longrightarrow> j < nat (height e) \<Longrightarrow> grids_ok (e\<lparr>buffer := (buffer e)[j := (buffer e ! j)[i := c]]\<rparr>)"
  by (simp add: grids_ok_def has_shape_update)

lemma drawText_loop_enumerate:
  assumes "grids_ok e"
  shows "\<exists>b. drawText_loop e x y (enumerate n cs) = Ok (e\<lparr>buffer := b\<rparr>)
           \<and> has_shape b (nat (height e)) (nat (width e))
           \<and> (\<forall>j i. j < nat (height e) \<longrightarrow> i < nat (width e) \<longrightarrow>
                 b ! j ! i =
                   (if int j = y \<and> x + int n \<le> int i \<and> int i < x + int n + int (length cs)
                    then cs ! nat (int i - x - int n) else buffer e ! j ! i))"
  using assms
proof (induction cs arbitrary: e n)
  case Nil
  have "e\<lparr>buffer := buffer e\<rparr> = e" by simp
  with Nil show ?case
    by (intro exI[of _ "buffer e"]) (simp add: grids_ok_def)
next
  case (Cons c cs)
  show ?case
  proof (cases "0 \<le> x + int n \<and> x + int n < width e \<and> 0 \<le> y \<and> y < height e")
    case False
    then have step: "drawPixel e (x + int n) y [c] = Ok e"
      by (rule drawPixel_out)
    from Cons.IH[OF Cons.prems, of "Suc n"] obtain b where
      b: "drawText_loop e x y (enumerate (Suc n) cs) = Ok (e\<lparr>buffer := b\<rparr>)"
         "has_shape b (nat (height e)) (nat (width e))"
         "\<And>j i. j < nat (height e) \<Longrightarrow> i < nat (width e) \<Longrightarrow>
                 b ! j ! i =
                   (if int j = y \<and> x + int (Suc n) \<le> int i \<and> int i < x + int (Suc n) + int (length cs)
                    then cs ! nat (int i - x - int (Suc n)) else buffer e ! j ! i)"
      by blast
    have "b ! j ! i =
            (if int j = y \<and> x + int n \<le> int i \<and> int i < x + int n + int (length (c # cs))
             then (c # cs) ! nat (int i - x - int n) else buffer e ! j ! i)"
      if "j < nat (height e)" "i < nat (width e)" for j i
    proof -
      from False that have ne: "\<not> (int j = y \<and> int i = x + int n)" by auto
      have "nat (int i - x - int n) = Suc (nat (int i - x - int (Suc n)))" if "x + int n < int i"
        using that by simp
      with ne show ?thesis using b(3)[OF that] by (auto simp: nth_Cons')
    qed
    with b(1,2) step show ?thesis by auto
  next
    case True
    let ?e1 = "e\<lparr>buffer := (buffer e)[nat y := (buffer e ! nat y)[nat (x + int n) := to_U1 [c]]]\<rparr>"
    from True Cons.prems have step: "drawPixel e (x + int n) y [c] = Ok ?e1"
      by (simp add: drawPixel_in)
    from True Cons.prems have ok1: "grids_ok ?e1"
      by (intro grids_ok_buffer_update) auto
    from Cons.IH[OF ok1, of "Suc n"] obtain b where
      b: "drawText_loop ?e1 x y (enumerate (Suc n) cs) = Ok (?e1\<lparr>buffer := b\<rparr>)"
         "has_shape b (nat (height e)) (nat (width e))"
         "\<And>j i. j < nat (height e) \<Longrightarrow> i < nat (width e) \<Longrightarrow>
                 b ! j ! i =
                   (if int j = y \<and> x + int (Suc n) \<le> int i \<and> int i < x + int (Suc n) + int (length cs)
                    then cs ! nat (int i - x - int (Suc n)) else buffer ?e1 ! j ! i)"
      by auto
    have len: "length (buffer e) = nat (height e)"
      and row: "\<And>j. j < nat (height e) \<Longrightarrow> length (buffer e ! j) = nat (width e)"
      using Cons.prems by (auto simp: grids_ok_def has_shape_def list_all_length)
    have "b ! j ! i =
            (if int j = y \<and> x + int n \<le> int i \<and> int i < x + int n + int (length (c # cs))
             then (c # cs) ! nat (int i - x - int n) else buffer e ! j ! i)"
      if "j < nat (height e)" "i < nat (width e)" for j i
    proof -
      have suc: "nat (int i - x - int n) = Suc (nat (int i - x - int (Suc n)))" if "x + int n < int i"
        using that by simp
      have old: "buffer ?e1 ! j ! i = (if j = nat y \<and> i = nat (x + int n) then c else buffer e ! j ! i)"
        using that len row[of j] True by (cases "j = nat y") (auto simp: to_U1_def nth_list_update)
      show ?thesis
      proof (cases "int j = y \<and> int i = x + int n")
        case True
        then have "j = nat y" "i = nat (x + int n)" by auto
        with True show ?thesis using b(3)[OF that] old by simp
      next
        case False
        then have "\<not> (j = nat y \<and> i = nat (x + int n))" using True that by auto
        with False show ?thesis using b(3)[OF that] old suc by (auto simp: nth_Cons')
      qed
    qed
    with b(1,2) step show ?thesis by auto
  qed
qed

subsection \<open>The float values of the scenarios\<close>

lemma floor_rat_numeral: "\<lfloor>numeral a / numeral b :: rat\<rfloor> = numeral a div numeral b"
  by (metis floor_divide_of_int_eq of_int_numeral)

lemma fl_pos_numeral:
  "fl_pos (numeral k) x =
     (if 9007199254740992 \<le> x then 2 * fl_pos (pred_numeral k) (x / 2)
      else if x < 4503599627370496 then fl_pos (pred_numeral k) (2 * x) / 2
      else of_int (round_even x))"
  by (simp add: numeral_eq_Suc)

lemmas fl_eval = fl_def fl_pos_numeral round_even_def Let_def floor_rat_numeral

lemma float_sixty: "fl 60 = 60"
  by (simp add: fl_eval)

lemma float_one_sixtieth: "fdiv 1 (fl 60) = 4803839602528529 / 288230376151711744"
  by (simp add: float_sixty fdiv_def fl_eval)

lemma float_one_twentieth: "fl (1 / 20) = 3602879701896397 / 72057594037927936"
  by (simp add: fl_eval)

lemma init_10x4: "init posix_process 10 4 60 60 = Inr engine_10x4"
  by (simp add: init_def engine_10x4_def posix_process_def np_full_def to_U1_def ascii_def
      float_one_sixtieth)

lemma grids_ok_10x4: "grids_ok engine_10x4"
  by (simp add: grids_ok_def engine_10x4_def has_shape_def list_all_iff)

subsection \<open>Out-of-bounds drawing and truncation\<close>

lemma drawText_cells:
  assumes "grids_ok e"
  shows "\<exists>b. drawText e x y s = Ok (e\<lparr>buffer := b\<rparr>)
              \<and> has_shape b (nat (height e)) (nat (width e))
              \<and> (\<forall>j i. j < nat (height e) \<longrightarrow> i < nat (width e) \<longrightarrow>
                    b ! j ! i =
                      (if int j = y \<and> x \<le> int i \<and> int i < x + int (length s)
                       then s ! nat (int i - x) else buffer e ! j ! i))"
  using drawText_loop_enumerate[OF assms, of x y 0 s] unfolding drawText_def
  by (simp only: of_nat_0 add_0_right diff_0_right)

text \<open>
  Claim C4.  Drawing outside the grid is a silent no-op.  A \<open>drawPixel\<close> at a position
  outside \<open>[0, width) \<times> [0, height)\<close> returns normally and leaves the whole engine, and so
  both grids, as it was.  \<open>drawText\<close> never raises and changes nothing but \<open>buffer\<close>;
  the new buffer has the same shape, holds the characters of the text at the in-bounds
  positions \<open>(x + k, y)\<close>, and is the old buffer everywhere else; when every character
  falls outside the grid the engine is unchanged.
\<close>

theorem out_of_bounds_drawing_is_silent:
  assumes "grids_ok e"
  shows "(\<not> (0 \<le> x \<and> x < width e \<and> 0 \<le> y \<and> y < height e) \<longrightarrow> drawPixel e x y char = Ok e)
       \<and> (\<exists>b. drawText e x y s = Ok (e\<lparr>buffer := b\<rparr>)
              \<and> has_shape b (nat (height e)) (nat (width e))
              \<and> (\<forall>j i. j < nat (height e) \<longrightarrow> i < nat (width e) \<longrightarrow>
                    b ! j ! i =
                      (if int j = y \<and> x \<le> int i \<and> int i < x + int (length s)
                       then s ! nat (int i - x) else buffer e ! j ! i)))
       \<and> ((\<forall>k<length s. \<not> (0 \<le> x + int k \<and> x + int k < width e \<and> 0 \<le> y \<and> y < height e))
              \<longrightarrow> drawText e x y s = Ok e)"
proof (intro conjI)
  show "\<not> (0 \<le> x \<and> x < width e \<and> 0 \<le> y \<and> y < height e) \<longrightarrow> drawPixel e x y char = Ok e"
    by (simp add: drawPixel_out)
next
  from drawText_cells[OF assms, of x y s]
  show "\<exists>b. drawText e x y s = Ok (e\<lparr>buffer := b\<rparr>)
              \<and> has_shape b (nat (height e)) (nat (width e))
              \<and> (\<forall>j i. j < nat (height e) \<longrightarrow> i < nat (width e) \<longrightarrow>
                    b ! j ! i =
                      (if int j = y \<and> x \<le> int i \<and> int i < x + int (length s)
                       then s ! nat (int i - x) else buffer e ! j ! i))" .
next
  show "(\<forall>k<length s. \<not> (0 \<le> x + int k \<and> x + int k < width e \<and> 0 \<le> y \<and> y < height e))
              \<longrightarrow> drawText e x y s = Ok e"
  proof
    assume out: "\<forall>k<length s. \<not> (0 \<le> x + int k \<and> x + int k < width e \<and> 0 \<le> y \<and> y < height e)"
    from drawText_cells[OF assms, of x y s] obtain b where
      b: "drawText e x y s = Ok (e\<lparr>buffer := b\<rparr>)"
         "has_shape b (nat (height e)) (nat (width e))"
         "\<And>j i. j < nat (height e) \<Longrightarrow> i < nat (width e) \<Longrightarrow>
                    b ! j ! i =
                      (if int j = y \<and> x \<le> int i \<and> int i < x + int (length s)
                       then s ! nat (int i - x) else buffer e ! j ! i)"
      by blast
    have same: "b ! j ! i = buffer e ! j ! i" if "j < nat (height e)" "i < nat (width e)" for j i
    proof -
      have "\<not> (int j = y \<and> x \<le> int i \<and> int i < x + int (length s))"
      proof
        assume h: "int j = y \<and> x \<le> int i \<and> int i < x + int (length s)"
        then have "nat (int i - x) < length s" by auto
        with out have "\<not> (0 \<le> x + int (nat (int i - x)) \<and> x + int (nat (int i - x)) < width e \<and> 0 \<le> y \<and> y < height e)"
          by blast
        with h that show False by auto
      qed
      with b(3)[OF that] show ?thesis by simp
    qed
    have shp: "has_shape (buffer e) (nat (height e)) (nat (width e))"
      using assms by (simp add: grids_ok_def)
    have "b = buffer e"
    proof (rule nth_equalityI)
      show "length b = length (buffer e)" using b(2) shp by (simp add: has_shape_def)
    next
      fix j assume "j < length b"
      then have j: "j < nat (height e)" using b(2) by (simp add: has_shape_def)
      show "b ! j = buffer e ! j"
      proof (rule nth_equalityI)
        show "length (b ! j) = length (buffer e ! j)"
          using has_shape_nth[OF b(2) j] has_shape_nth[OF shp j] by simp
      next
        fix i assume "i < length (b ! j)"
        then have "i < nat (width e)" using has_shape_nth[OF b(2) j] by simp
        with j show "b ! j ! i = buffer e ! j ! i" by (rule same)
      qed
    qed
    with b(1) show "drawText e x y s = Ok e" by simp
  qed
qed

theorem out_of_bounds_drawing_is_silent_witness:
  "grids_ok engine_10x4
   \<and> drawPixel engine_10x4 10 1 (ascii ''@'') = Ok engine_10x4
   \<and> drawText engine_10x4 8 4 (ascii ''abc'') = Ok engine_10x4
   \<and> (\<exists>b. drawText engine_10x4 8 1 (ascii ''abc'') = Ok (engine_10x4\<lparr>buffer := b\<rparr>)
          \<and> b ! 1 ! 8 = 97 \<and> b ! 1 ! 9 = 98 \<and> b ! 1 ! 7 = 32 \<and> b ! 0 ! 8 = 32)"
proof -
  note t = out_of_bounds_drawing_is_silent[OF grids_ok_10x4]
  have w: "width engine_10x4 = 10" and h: "height engine_10x4 = 4"
    by (simp_all add: engine_10x4_def)
  have 1: "drawPixel engine_10x4 10 1 (ascii ''@'') = Ok engine_10x4"
    using t[where x = 10 and y = 1 and char = "ascii ''@''"] by (simp add: w h)
  have 2: "drawText engine_10x4 8 4 (ascii ''abc'') = Ok engine_10x4"
    using t[where x = 8 and y = 4 and s = "ascii ''abc''"] by (simp add: w h)
  from t[where x = 8 and y = 1 and s = "ascii ''abc''"] obtain b where
    b: "drawText engine_10x4 8 1 (ascii ''abc'') = Ok (engine_10x4\<lparr>buffer := b\<rparr>)"
       "\<And>j i. j < nat (height engine_10x4) \<Longrightarrow> i < nat (width engine_10x4) \<Longrightarrow>
           b ! j ! i =
             (if int j = 1 \<and> 8 \<le> int i \<and> int i < 8 + int (length (ascii ''abc''))
              then ascii ''abc'' ! nat (int i - 8) else buffer engine_10x4 ! j ! i)"
    by blast
  have "b ! 1 ! 8 = 97" "b ! 1 ! 9 = 98" "b ! 1 ! 7 = 32" "b ! 0 ! 8 = 32"
    using b(2)[of 1 8] b(2)[of 1 9] b(2)[of 1 7] b(2)[of 0 8] by (simp_all add: engine_10x4_def ascii_def)
  with b(1) 1 2 grids_ok_10x4 show ?thesis by blast
qed

text \<open>
  Claim C9.  An in-bounds \<open>drawPixel\<close> with a string of more than one character stores
  the first character only: it returns normally, the cell at \<open>(x, y)\<close> holds the first
  code point of the string, nothing else changes, and the call has the same result as
  the call with the one-character string.
\<close>

theorem drawPixel_keeps_first_character:
  assumes "grids_ok e" "0 \<le> x" "x < width e" "0 \<le> y" "y < height e"
  shows "drawPixel e x y (c # cs) = drawPixel e x y [c]
       \<and> (\<exists>e'. drawPixel e x y (c # cs) = Ok e'
               \<and> buffer e' ! nat y ! nat x = c
               \<and> e' = e\<lparr>buffer := (buffer e)[nat y := (buffer e ! nat y)[nat x := c]]\<rparr>)"
proof -
  have len: "nat y < length (buffer e)" "nat x < length (buffer e ! nat y)"
    using assms by (auto simp: grids_ok_def has_shape_def list_all_length)
  show ?thesis
    using len by (simp add: drawPixel_in[OF assms] to_U1_def)
qed

theorem drawPixel_keeps_first_character_witness:
  "grids_ok engine_10x4 \<and> (0::int) \<le> 2 \<and> 2 < width engine_10x4 \<and> (0::int) \<le> 1
   \<and> 1 < height engine_10x4
   \<and> (\<exists>e'. drawPixel engine_10x4 2 1 (ascii ''@#'') = Ok e' \<and> buffer e' ! 1 ! 2 = 64)"
proof -
  have b: "2 < width engine_10x4" "1 < height engine_10x4"
    by (simp_all add: engine_10x4_def)
  have z: "(0::int) \<le> 2" "(0::int) \<le> 1" by simp_all
  from drawPixel_keeps_first_character[OF grids_ok_10x4 z(1) b(1) z(2) b(2), of 64 "[35]"]
  obtain e' where "drawPixel engine_10x4 2 1 (64 # [35]) = Ok e'" "buffer e' ! nat 1 ! nat 2 = 64"
    by blast
  then have "\<exists>e'. drawPixel engine_10x4 2 1 (ascii ''@#'') = Ok e' \<and> buffer e' ! 1 ! 2 = 64"
    by (simp add: ascii_def)
  with grids_ok_10x4 b show ?thesis by simp
qed

section \<open>Properties of the key state\<close>

text \<open>
  Claim C3.  A key surfaces for exactly one rotation window.  For a key in \<open>keysPressed\<close>:
  \<open>isKeyPressed\<close> holds before \<open>clearKeyStates\<close>; after one \<open>clearKeyStates\<close> the key is no
  longer pressed and is released; after a second one, with no key added in between, it
  is neither, and both sets are empty.
\<close>

theorem key_surfaces_for_one_rotation:
  assumes "k \<in> keysPressed e"
  shows "isKeyPressed e k
       \<and> \<not> isKeyPressed (clearKeyStates e) k \<and> isKeyReleased (clearKeyStates e) k
       \<and> \<not> isKeyPressed (clearKeyStates (clearKeyStates e)) k
       \<and> \<not> isKeyReleased (clearKeyStates (clearKeyStates e)) k
       \<and> keysPressed (clearKeyStates (clearKeyStates e)) = {}
       \<and> keysReleased (clearKeyStates (clearKeyStates e)) = {}"
  using assms by (simp add: isKeyPressed_def isKeyReleased_def clearKeyStates_def)

theorem key_surfaces_for_one_rotation_witness:
  "ascii ''q'' \<in> keysPressed (engine_10x4\<lparr>keysPressed := {ascii ''q''}\<rparr>)
   \<and> isKeyPressed (engine_10x4\<lparr>keysPressed := {ascii ''q''}\<rparr>) (ascii ''q'')
   \<and> isKeyReleased (clearKeyStates (engine_10x4\<lparr>keysPressed := {ascii ''q''}\<rparr>)) (ascii ''q'')
   \<and> keysReleased (clearKeyStates (clearKeyStates (engine_10x4\<lparr>keysPressed := {ascii ''q''}\<rparr>))) = {}"
proof -
  have h: "ascii ''q'' \<in> keysPressed (engine_10x4\<lparr>keysPressed := {ascii ''q''}\<rparr>)"
    by simp
  from key_surfaces_for_one_rotation[OF h] h show ?thesis by blast
qed

section \<open>Properties of the renderer\<close>

lemma in_set_where_rows:
  "(y, x) \<in> set (concat (map (\<lambda>(y, r). map (\<lambda>x. (y, x)) (filter (\<lambda>x. r ! x) [0..<length r]))
                           (enumerate n d)))
     \<longleftrightarrow> n \<le> y \<and> y < n + length d \<and> x < length (d ! (y - n)) \<and> d ! (y - n) ! x"
proof (induction d arbitrary: n)
  case Nil
  show ?case by simp
next
  case (Cons r d)
  show ?case
  proof (cases "y = n")
    case True
    then show ?thesis using Cons.IH[of "Suc n"] by auto
  next
    case False
    then have "(y - n) = Suc (y - Suc n)" if "n \<le> y" using that by simp
    with False show ?thesis using Cons.IH[of "Suc n"] by auto
  qed
qed

lemma in_set_np_where:
  "(y, x) \<in> set (np_where d) \<longleftrightarrow> y < length d \<and> x < length (d ! y) \<and> d ! y ! x"
  unfolding np_where_def in_set_where_rows by simp

lemma sorted_where_rows:
  "sorted_wrt row_major
     (concat (map (\<lambda>(y, r). map (\<lambda>x. (y, x)) (filter (\<lambda>x. r ! x) [0..<length r]))
                  (enumerate n d)))"
proof (induction d arbitrary: n)
  case Nil
  show ?case by simp
next
  case (Cons r d)
  have row: "sorted_wrt row_major (map (\<lambda>x. (n, x)) (filter (\<lambda>x. r ! x) [0..<length r]))"
    by (simp add: sorted_wrt_map row_major_def sorted_wrt_filter)
  have cross: "row_major p q"
    if "p \<in> set (map (\<lambda>x. (n, x)) (filter (\<lambda>x. r ! x) [0..<length r]))"
       "q \<in> set (concat (map (\<lambda>(y, r). map (\<lambda>x. (y, x)) (filter (\<lambda>x. r ! x) [0..<length r]))
                           (enumerate (Suc n) d)))" for p q
  proof -
    obtain y x where q: "q = (y, x)" by (cases q)
    from that(2) have "Suc n \<le> y" unfolding q in_set_where_rows by simp
    with that(1) q show ?thesis by (auto simp: row_major_def)
  qed
  from row cross Cons.IH[of "Suc n"] show ?case
    by (simp add: sorted_wrt_append)
qed

lemma sorted_np_where: "sorted_wrt row_major (np_where d)"
  unfolding np_where_def by (rule sorted_where_rows)

lemma distinct_np_where: "distinct (np_where d)"
proof -
  have less: "np_where d ! i \<noteq> np_where d ! j" if "i < j" "j < length (np_where d)" for i j
    using sorted_wrt_nth_less[OF sorted_np_where that] by (auto simp: row_major_def)
  have "np_where d ! i \<noteq> np_where d ! j"
    if "i < length (np_where d)" "j < length (np_where d)" "i \<noteq> j" for i j
    using less[of i j] less[of j i] that by (cases "i < j") auto
  then show ?thesis by (simp add: distinct_conv_nth)
qed

lemma decimal_value_digits: "decimal_value (digits n) = n"
proof (induction n rule: digits.induct)
  case (1 n)
  show ?case
  proof (cases "n < 10")
    case True
    then show ?thesis by (simp add: digits.simps[of n] decimal_value_def)
  next
    case False
    with 1 have "decimal_value (digits (n div 10)) = n div 10" by simp
    with False show ?thesis by (simp add: digits.simps[of n] decimal_value_def)
  qed
qed

lemma digits_are_digits: "c \<in> set (digits n) \<Longrightarrow> 48 \<le> c \<and> c \<le> 57"
proof (induction n rule: digits.induct)
  case (1 n)
  show ?case
  proof (cases "n < 10")
    case True
    with 1(2) show ?thesis by (simp add: digits.simps[of n])
  next
    case False
    have "n mod 10 < 10" by simp
    with False 1 show ?thesis by (auto simp add: digits.simps[of n])
  qed
qed

lemma str_int_decimal:
  "decimal_value (str_int (int n)) = n \<and> (\<forall>c \<in> set (str_int (int n)). 48 \<le> c \<and> c \<le> 57)"
  by (simp add: str_int_def decimal_value_digits digits_are_digits)

lemma not_equal_same_shape:
  assumes "has_shape a h w" "has_shape b h w"
  shows "\<exists>d. not_equal a b = Inr d \<and> length d = h
           \<and> (\<forall>y < h. length (d ! y) = w \<and> (\<forall>x < w. d ! y ! x = (a ! y ! x \<noteq> b ! y ! x)))"
proof -
  have la: "length a = h" and lb: "length b = h"
    and ra: "\<And>y. y < h \<Longrightarrow> length (a ! y) = w" and rb: "\<And>y. y < h \<Longrightarrow> length (b ! y) = w"
    using assms by (auto simp: has_shape_def list_all_length)
  have "map length a = map length b"
    by (rule nth_equalityI) (simp_all add: la lb ra rb)
  then have "not_equal a b = Inr (map2 (\<lambda>r s. map2 (\<lambda>c d. c \<noteq> d) r s) a b)"
    by (simp add: not_equal_def)
  moreover have "length (map2 (\<lambda>r s. map2 (\<lambda>c d. c \<noteq> d) r s) a b) = h"
    by (simp add: la lb)
  moreover have "length (map2 (\<lambda>r s. map2 (\<lambda>c d. c \<noteq> d) r s) a b ! y) = w
           \<and> (\<forall>x < w. map2 (\<lambda>r s. map2 (\<lambda>c d. c \<noteq> d) r s) a b ! y ! x = (a ! y ! x \<noteq> b ! y ! x))"
    if "y < h" for y
    using that by (simp add: la lb ra rb)
  ultimately show ?thesis by blast
qed

text \<open>What \<open>render\<close> does to an engine whose grids have the shape \<open>(height, width)\<close>.\<close>

lemma render_cells:
  assumes "grids_ok e"
  shows "\<exists>cells. render e =
                    Ok ((stdout_write e (map (cell_write (buffer e)) cells))\<lparr>prevBuffer := buffer e\<rparr>)
           \<and> set cells = changed e \<and> sorted_wrt row_major cells \<and> distinct cells"
proof -
  from assms have sa: "has_shape (buffer e) (nat (height e)) (nat (width e))"
    and sb: "has_shape (prevBuffer e) (nat (height e)) (nat (width e))"
    by (simp_all add: grids_ok_def)
  from not_equal_same_shape[OF sa sb] obtain d where
    d: "not_equal (buffer e) (prevBuffer e) = Inr d" "length d = nat (height e)"
       "\<And>y. y < nat (height e) \<Longrightarrow> length (d ! y) = nat (width e)"
       "\<And>y x. y < nat (height e) \<Longrightarrow> x < nat (width e) \<Longrightarrow>
                d ! y ! x = (buffer e ! y ! x \<noteq> prevBuffer e ! y ! x)"
    by blast
  have "set (np_where d) = changed e"
  proof (rule set_eqI)
    fix p :: "nat \<times> nat"
    obtain y x where p: "p = (y, x)" by (cases p)
    show "p \<in> set (np_where d) \<longleftrightarrow> p \<in> changed e"
      unfolding p in_set_np_where changed_def using d(2) d(3)[of y] d(4)[of y x] by auto
  qed
  with d(1) sorted_np_where[of d] distinct_np_where[of d] show ?thesis
    by (intro exI[of _ "np_where d"]) (simp add: render_def)
qed


lemma cell_write_cup:
  "cell_write a (y, x) = cup (y + 1) (x + 1) @ from_U1 (a ! y ! x)"
proof -
  have "nat (int y + 1) = Suc y" "nat (int x + 1) = Suc x" by simp_all
  then show ?thesis by (simp add: cell_write_def cup_def str_int_def)
qed



text \<open>The engine of the scenario after \<open>drawPixel(2, 1, "@")\<close>.\<close>

lemma drawPixel_scenario:
  "drawPixel engine_10x4 2 1 (ascii ''@'') =
     Ok (engine_10x4\<lparr>buffer := (buffer engine_10x4)[1 := (buffer engine_10x4 ! 1)[2 := 64]]\<rparr>)"
  by code_simp

lemma grids_ok_scenario:
  "grids_ok (engine_10x4\<lparr>buffer := (buffer engine_10x4)[1 := (buffer engine_10x4 ! 1)[2 := 64]]\<rparr>)"
  using grids_ok_buffer_update[OF grids_ok_10x4, of 1 2 64] by (simp add: engine_10x4_def)




lemma render_output:
  assumes "grids_ok e"
  shows "\<exists>cells. stdout (proc (state_of (render e)))
                    = stdout (proc e) @ map (cell_write (buffer e)) cells
           \<and> set cells = changed e \<and> sorted_wrt row_major cells"
proof -
  from render_cells[OF assms] obtain cells where
    c: "render e = Ok ((stdout_write e (map (cell_write (buffer e)) cells))\<lparr>prevBuffer := buffer e\<rparr>)"
       "set cells = changed e" "sorted_wrt row_major cells"
    by blast
  from c(1) have "stdout (proc (state_of (render e)))
                    = stdout (proc e) @ map (cell_write (buffer e)) cells"
    by (simp add: stdout_write_def)
  with c(2,3) show ?thesis by blast
qed

text \<open>
  Claim C8.  For every changed cell at grid coordinates \<open>(x, y)\<close>, counted from 0, the
  string \<open>render\<close> writes is the cursor-position command for row \<open>y + 1\<close> and column
  \<open>x + 1\<close>, followed by the cell's character.  The row and the column stand in the
  command as decimal numerals: \<open>digits n\<close> consists of decimal digits and denotes \<open>n\<close>.
\<close>

theorem render_positions_one_indexed:
  assumes "grids_ok e"
  shows "\<exists>cells. stdout (proc (state_of (render e)))
                    = stdout (proc e)
                      @ map (\<lambda>(y, x). cup (y + 1) (x + 1) @ from_U1 (buffer e ! y ! x)) cells
           \<and> set cells = changed e
           \<and> (\<forall>n. decimal_value (digits n) = n \<and> list_all (\<lambda>c. 48 \<le> c \<and> c \<le> 57) (digits n))"
proof -
  from render_output[OF assms] obtain cells where
    c: "stdout (proc (state_of (render e))) = stdout (proc e) @ map (cell_write (buffer e)) cells"
       "set cells = changed e"
    by blast
  have "cell_write (buffer e) = (\<lambda>(y, x). cup (y + 1) (x + 1) @ from_U1 (buffer e ! y ! x))"
    by (rule ext) (auto simp: cell_write_cup)
  with c(1) have out: "stdout (proc (state_of (render e)))
                    = stdout (proc e)
                      @ map (\<lambda>(y, x). cup (y + 1) (x + 1) @ from_U1 (buffer e ! y ! x)) cells"
    by simp
  have dec: "\<forall>n. decimal_value (digits n) = n \<and> list_all (\<lambda>c. 48 \<le> c \<and> c \<le> 57) (digits n)"
    using digits_are_digits by (auto simp: decimal_value_digits list_all_iff)
  from out c(2) dec show ?thesis by blast
qed

theorem render_positions_one_indexed_witness:
  "grids_ok (engine_10x4\<lparr>buffer := (buffer engine_10x4)[1 := (buffer engine_10x4 ! 1)[2 := 64]]\<rparr>)
   \<and> stdout (proc (state_of (render
        (engine_10x4\<lparr>buffer := (buffer engine_10x4)[1 := (buffer engine_10x4 ! 1)[2 := 64]]\<rparr>))))
       = [cup 2 3 @ ascii ''@'']
   \<and> cup 2 3 = 27 # ascii ''[2;3H''"
proof -
  let ?e = "engine_10x4\<lparr>buffer := (buffer engine_10x4)[1 := (buffer engine_10x4 ! 1)[2 := 64]]\<rparr>"
  from render_positions_one_indexed[OF grids_ok_scenario] obtain cells where
    c: "stdout (proc (state_of (render ?e)))
          = stdout (proc ?e) @ map (\<lambda>(y, x). cup (y + 1) (x + 1) @ from_U1 (buffer ?e ! y ! x)) cells"
       "set cells = changed ?e"
    by blast
  have "stdout (proc (state_of (render ?e))) = [cup 2 3 @ ascii ''@'']"
    by code_simp
  moreover have "cup 2 3 = 27 # ascii ''[2;3H''"
    by (simp add: cup_def digits.simps ascii_def)
  ultimately show ?thesis using grids_ok_scenario c by simp
qed

text \<open>
  Claim C10.  \<open>render\<close> writes the changed cells in row-major order: of two changed
  cells the one in the earlier row is written first, and of two in the same row the one
  with the smaller column.
\<close>

theorem render_row_major_order:
  assumes "grids_ok e"
  shows "\<exists>cells. stdout (proc (state_of (render e)))
                    = stdout (proc e) @ map (cell_write (buffer e)) cells
           \<and> set cells = changed e
           \<and> (\<forall>i j. i < j \<and> j < length cells \<longrightarrow>
                  fst (cells ! i) < fst (cells ! j)
                  \<or> (fst (cells ! i) = fst (cells ! j) \<and> snd (cells ! i) < snd (cells ! j)))"
proof -
  from render_output[OF assms] obtain cells where
    c: "stdout (proc (state_of (render e))) = stdout (proc e) @ map (cell_write (buffer e)) cells"
       "set cells = changed e" "sorted_wrt row_major cells"
    by blast
  from c(3) have "\<forall>i j. i < j \<and> j < length cells \<longrightarrow>
                  fst (cells ! i) < fst (cells ! j)
                  \<or> (fst (cells ! i) = fst (cells ! j) \<and> snd (cells ! i) < snd (cells ! j))"
    by (simp add: sorted_wrt_iff_nth_less row_major_def)
  with c(1,2) show ?thesis by blast
qed

theorem render_row_major_order_witness:
  "grids_ok (engine_10x4\<lparr>buffer :=
      (buffer engine_10x4)[0 := (replicate 10 32)[5 := 97], 1 := (replicate 10 32)[0 := 98, 2 := 64]]\<rparr>)
   \<and> stdout (proc (state_of (render (engine_10x4\<lparr>buffer :=
      (buffer engine_10x4)[0 := (replicate 10 32)[5 := 97], 1 := (replicate 10 32)[0 := 98, 2 := 64]]\<rparr>))))
       = [27 # ascii ''[1;6Ha'', 27 # ascii ''[2;1Hb'', 27 # ascii ''[2;3H@'']"
proof -
  let ?e = "engine_10x4\<lparr>buffer :=
      (buffer engine_10x4)[0 := (replicate 10 32)[5 := 97], 1 := (replicate 10 32)[0 := 98, 2 := 64]]\<rparr>"
  have g: "grids_ok ?e" by code_simp
  from render_row_major_order[OF g] obtain cells where
    "stdout (proc (state_of (render ?e))) = stdout (proc ?e) @ map (cell_write (buffer ?e)) cells"
    by blast
  moreover have "stdout (proc (state_of (render ?e)))
       = [27 # ascii ''[1;6Ha'', 27 # ascii ''[2;1Hb'', 27 # ascii ''[2;3H@'']"
    by code_simp
  ultimately show ?thesis using g by simp
qed




section \<open>Properties of the fixed-timestep loop\<close>

lemma drain_is_ticks:
  "k \<le> 5 \<Longrightarrow>
   \<exists>n. k + n \<le> 5 \<and> drain upd e lag k = ticks n upd e lag k \<and> due n upd e lag
       \<and> (case drain upd e lag k of
             Ok (e', lag', c) \<Rightarrow> c = k + n \<and> (c = 5 \<or> lag' < tickDuration e')
           | Raise x (e', lag', c) \<Rightarrow> k + n = c + 1)"
proof (induction upd e lag k rule: drain.induct)
  case (1 upd e lag k)
  show ?case
  proof (cases "tickDuration e \<le> lag \<and> k < 5")
    case False
    with 1(2) have "drain upd e lag k = Ok (e, lag, k)" "k = 5 \<or> lag < tickDuration e"
      by (auto simp: drain.simps[of upd e lag k])
    then show ?thesis by (intro exI[of _ 0]) (use 1(2) in simp)
  next
    case True
    show ?thesis
    proof (cases "upd e (tickDuration e)")
      case (Raise x e')
      with True have "drain upd e lag k = Raise x (e', lag, k)"
        by (simp add: drain.simps[of upd e lag k])
      with True Raise show ?thesis by (intro exI[of _ 1]) simp
    next
      case (Ok e')
      with True have d: "drain upd e lag k = drain upd e' (fsub lag (tickDuration e')) (k + 1)"
        by (simp add: drain.simps[of upd e lag k])
      from True have "k + 1 \<le> 5" by simp
      from 1(1)[OF True Ok this] obtain n where
        n: "k + 1 + n \<le> 5"
           "drain upd e' (fsub lag (tickDuration e')) (k + 1)
              = ticks n upd e' (fsub lag (tickDuration e')) (k + 1)"
           "due n upd e' (fsub lag (tickDuration e'))"
           "case drain upd e' (fsub lag (tickDuration e')) (k + 1) of
              Ok (e'', lag', c) \<Rightarrow> c = k + 1 + n \<and> (c = 5 \<or> lag' < tickDuration e'')
            | Raise x (e'', lag', c) \<Rightarrow> k + 1 + n = c + 1"
        by blast
      show ?thesis
      proof (intro exI[of _ "Suc n"] conjI)
        show "k + Suc n \<le> 5" using n(1) by simp
        show "drain upd e lag k = ticks (Suc n) upd e lag k" using d n(2) Ok by simp
        show "due (Suc n) upd e lag" using True Ok n(3) by simp
        show "case drain upd e lag k of
                Ok (e', lag', c) \<Rightarrow> c = k + Suc n \<and> (c = 5 \<or> lag' < tickDuration e')
              | Raise x (e', lag', c) \<Rightarrow> k + Suc n = c + 1"
          using n(4) unfolding d by (auto split: result.splits)
      qed
    qed
  qed
qed

lemma drain_steady:
  assumes "steady upd"
  shows "\<exists>e'. drain upd e lag k
                 = Ok (e', fst (drain_locals (tickDuration e) lag k),
                       snd (drain_locals (tickDuration e) lag k))
             \<and> tickDuration e' = tickDuration e"
  using assms
proof (induction upd e lag k rule: drain.induct)
  case (1 upd e lag k)
  show ?case
  proof (cases "tickDuration e \<le> lag \<and> k < 5")
    case False
    then show ?thesis
      by (auto simp: drain.simps[of upd e lag k] drain_locals.simps[of "tickDuration e" lag k])
  next
    case True
    from 1(2) obtain e' where e': "upd e (tickDuration e) = Ok e'" "tickDuration e' = tickDuration e"
      unfolding steady_def by blast
    from 1(1)[OF True e'(1) 1(2)] e' True show ?thesis
      by (simp add: drain.simps[of upd e lag k] drain_locals.simps[of "tickDuration e" lag k])
  qed
qed

lemma stall_locals:
  "drain_locals (4803839602528529 / 288230376151711744) 10 0
     = (5582587038094675 / 562949953421312, 5)"
  by (simp add: drain_locals.simps fsub_def fl_eval)

lemma twentieth_locals:
  "drain_locals (4803839602528529 / 288230376151711744) (3602879701896397 / 72057594037927936) 0
     = (1 / 144115188075855872, 3)"
  by (simp add: drain_locals.simps fsub_def fl_eval)

lemma float_add_zero_twentieth: "fadd 0 (fl (1 / 20)) = 3602879701896397 / 72057594037927936"
  by (simp add: fadd_def float_one_twentieth fl_eval)

lemma float_ten: "fadd 0 10 = 10"
  by (simp add: fadd_def fl_eval)

lemma steady_update: "steady update"
  by (simp add: steady_def update_def)

lemma tick_10x4: "tickDuration engine_10x4 = fdiv 1 (fl 60)"
  by (simp add: float_one_sixtieth engine_10x4_def)

text \<open>
  Claim C1.  Whatever \<open>update\<close> does and however large the lag is, one run of the drain
  loop is a sequence of \<open>n\<close> ticks with \<open>n\<close> at most 5: every tick is one call
  \<open>update(tickDuration)\<close> followed by \<open>lag -= tickDuration\<close>, and is made while
  \<open>lag >= tickDuration\<close>.  The loop stops because 5 ticks are done, or the lag is below
  the tick duration, or \<open>update\<close> raised; the lag left over is what the \<open>n\<close> decrements
  leave, it is not reset.  After a stall of 10 seconds at tick rate 60, with an \<open>update\<close>
  that returns normally, exactly 5 ticks fire and the lag left, about 9.9167 s, is
  kept.
\<close>

theorem drain_is_capped:
  "(\<exists>n. n \<le> 5 \<and> drain upd e lag 0 = ticks n upd e lag 0 \<and> due n upd e lag
        \<and> (case drain upd e lag 0 of
              Ok (e', lag', c) \<Rightarrow> c = n \<and> (c = 5 \<or> lag' < tickDuration e')
            | Raise x (e', lag', c) \<Rightarrow> n = c + 1))
   \<and> (steady upd \<and> tickDuration e = fdiv 1 (fl 60) \<longrightarrow>
        (\<exists>e'. drain upd e (fadd 0 10) 0 = Ok (e', 5582587038094675 / 562949953421312, 5)
              \<and> tickDuration e' \<le> 5582587038094675 / 562949953421312))"
proof (intro conjI impI)
  from drain_is_ticks[of 0 upd e lag]
  show "\<exists>n. n \<le> 5 \<and> drain upd e lag 0 = ticks n upd e lag 0 \<and> due n upd e lag
        \<and> (case drain upd e lag 0 of
              Ok (e', lag', c) \<Rightarrow> c = n \<and> (c = 5 \<or> lag' < tickDuration e')
            | Raise x (e', lag', c) \<Rightarrow> n = c + 1)"
    by (simp cong: result.case_cong prod.case_cong)
next
  assume a: "steady upd \<and> tickDuration e = fdiv 1 (fl 60)"
  then have t: "tickDuration e = 4803839602528529 / 288230376151711744"
    by (simp add: float_one_sixtieth)
  from a drain_steady[of upd e "fadd 0 10" 0] obtain e' where
    "drain upd e (fadd 0 10) 0
       = Ok (e', fst (drain_locals (tickDuration e) (fadd 0 10) 0),
             snd (drain_locals (tickDuration e) (fadd 0 10) 0))"
    "tickDuration e' = tickDuration e"
    by blast
  then show "\<exists>e'. drain upd e (fadd 0 10) 0 = Ok (e', 5582587038094675 / 562949953421312, 5)
              \<and> tickDuration e' \<le> 5582587038094675 / 562949953421312"
    by (simp add: t float_ten stall_locals)
qed

theorem drain_is_capped_witness:
  "steady update \<and> tickDuration engine_10x4 = fdiv 1 (fl 60)
   \<and> drain update engine_10x4 (fadd 0 10) 0
       = Ok (engine_10x4, 5582587038094675 / 562949953421312, 5)
   \<and> tickDuration engine_10x4 \<le> 5582587038094675 / 562949953421312"
proof -
  from drain_is_capped[of update engine_10x4] steady_update tick_10x4
  obtain e' where
    e': "drain update engine_10x4 (fadd 0 10) 0 = Ok (e', 5582587038094675 / 562949953421312, 5)"
        "tickDuration e' \<le> 5582587038094675 / 562949953421312"
    by blast
  from drain_is_ticks[of 0 update engine_10x4 "fadd 0 10"] obtain n where
    n: "drain update engine_10x4 (fadd 0 10) 0 = ticks n update engine_10x4 (fadd 0 10) 0"
    by auto
  have "fst (state_of (ticks m update s l k)) = s" for m k and s :: engine and l
    by (induction m arbitrary: l k) (simp_all add: update_def)
  from this[of n engine_10x4 "fadd 0 10" 0] e'(1) n have "e' = engine_10x4" by simp
  with e' steady_update tick_10x4 show ?thesis by simp
qed

text \<open>
  Claim C6, as the code has it.  At tick rate 60 the tick duration is the float
  \<open>1.0 / 60\<close>.  With a lag of \<open>0.0 + 0.05\<close> and an \<open>update\<close> that returns normally, the
  drain loop fires exactly 3 ticks and no fourth one: the lag left is \<open>2^-57\<close> s, about
  \<open>6.9e-18\<close>, which is below the tick duration.
\<close>

theorem twentieth_of_a_second_is_three_ticks:
  assumes "steady upd" "tickDuration e = fdiv 1 (fl 60)"
  shows "\<exists>e'. drain upd e (fadd 0 (fl (1 / 20))) 0 = Ok (e', 1 / 144115188075855872, 3)
             \<and> 1 / 144115188075855872 < tickDuration e'"
proof -
  from assms(2) have t: "tickDuration e = 4803839602528529 / 288230376151711744"
    by (simp add: float_one_sixtieth)
  from drain_steady[OF assms(1), of e "fadd 0 (fl (1 / 20))" 0] obtain e' where
    "drain upd e (fadd 0 (fl (1 / 20))) 0
       = Ok (e', fst (drain_locals (tickDuration e) (fadd 0 (fl (1 / 20))) 0),
             snd (drain_locals (tickDuration e) (fadd 0 (fl (1 / 20))) 0))"
    "tickDuration e' = tickDuration e"
    by blast
  then show ?thesis
    by (simp add: t float_add_zero_twentieth twentieth_locals)
qed

theorem twentieth_of_a_second_is_three_ticks_witness:
  "steady update \<and> tickDuration engine_10x4 = fdiv 1 (fl 60)
   \<and> (\<exists>e'. drain update engine_10x4 (fadd 0 (fl (1 / 20))) 0
               = Ok (e', 1 / 144115188075855872, 3)
           \<and> 1 / 144115188075855872 < tickDuration e')"
  using twentieth_of_a_second_is_three_ticks[OF steady_update tick_10x4] steady_update tick_10x4
  by blast

text \<open>
  The scenario as the specification states it fails: on the engine built with tick
  rate 60, fed 0.05 s, the third tick does fire.
\<close>

theorem two_ticks_counterexample:
  "init posix_process 10 4 60 60 = Inr engine_10x4
   \<and> drain update engine_10x4 (fadd 0 (fl (1 / 20))) 0
       = Ok (engine_10x4, 1 / 144115188075855872, 3)"
proof -
  have "drain update engine_10x4 (fadd 0 (fl (1 / 20))) 0
       = Ok (engine_10x4, 1 / 144115188075855872, 3)"
    unfolding float_add_zero_twentieth
    by (simp add: drain.simps update_def engine_10x4_def fsub_def fl_eval)
  with init_10x4 show ?thesis by simp
qed

section \<open>Properties of the session\<close>














end
